theory Spec2Isabelle
  imports Main
begin

section \<open>Strings, characters and the regular-expression primitives\<close>

text \<open>
  The program is \<^verbatim>\<open>convert-docs.py\<close>; the function verified is
  \<^verbatim>\<open>convert_md_to_html\<close> (lines 52-185), a pipeline of \<^verbatim>\<open>re.sub\<close> calls
  and one line-by-line loop. A Python \<^verbatim>\<open>str\<close> is a sequence of Unicode code points,
  so a string is a list of code points here; \<open>U ''...''\<close> writes an ASCII literal.
\<close>

type_synonym ustring = "nat list"

abbreviation (input) U :: "string \<Rightarrow> ustring" where
  "U s \<equiv> map of_char s"

text \<open>
  Python's Unicode tables are not part of the repository. The ASCII range of \<^verbatim>\<open>\w\<close>,
  \<^verbatim>\<open>\d\<close> and \<^verbatim>\<open>str.lower\<close> is written out; what they do on code points from
  128 on is a parameter of the model, so every theorem holds for any Unicode table.
\<close>

record unidb =
  uni_word :: "nat \<Rightarrow> bool"
  uni_digit :: "nat \<Rightarrow> bool"
  uni_lower :: "ustring \<Rightarrow> ustring"

definition ascii_db :: unidb where
  "ascii_db = \<lparr> uni_word = (\<lambda>c. False), uni_digit = (\<lambda>c. False), uni_lower = (\<lambda>s. s) \<rparr>"

definition is_digit :: "unidb \<Rightarrow> nat \<Rightarrow> bool" where
  \<comment> \<open>\<^verbatim>\<open>\d\<close>: a decimal digit; \<^verbatim>\<open>0-9\<close> in ASCII\<close>
  "is_digit db c = (if c < 128 then 48 \<le> c \<and> c \<le> 57 else uni_digit db c)"

definition is_word :: "unidb \<Rightarrow> nat \<Rightarrow> bool" where
  \<comment> \<open>\<^verbatim>\<open>\w\<close>: \<^verbatim>\<open>[a-zA-Z0-9_]\<close> in ASCII\<close>
  "is_word db c =
     (if c < 128 then (48 \<le> c \<and> c \<le> 57) \<or> (65 \<le> c \<and> c \<le> 90) \<or> c = 95 \<or> (97 \<le> c \<and> c \<le> 122)
      else uni_word db c)"

definition is_space :: "nat \<Rightarrow> bool" where
  \<comment> \<open>\<^verbatim>\<open>\s\<close> and \<^verbatim>\<open>str.isspace\<close>: the code points Python counts as whitespace\<close>
  "is_space c =
     ((9 \<le> c \<and> c \<le> 13) \<or> (28 \<le> c \<and> c \<le> 32) \<or> c = 133 \<or> c = 160 \<or> c = 5760
      \<or> (8192 \<le> c \<and> c \<le> 8202) \<or> c = 8232 \<or> c = 8233 \<or> c = 8239 \<or> c = 8287 \<or> c = 12288)"

definition ascii_lower :: "nat \<Rightarrow> nat" where
  "ascii_lower c = (if 65 \<le> c \<and> c \<le> 90 then c + 32 else c)"

definition str_lower :: "unidb \<Rightarrow> ustring \<Rightarrow> ustring" where
  \<comment> \<open>\<^verbatim>\<open>text.lower()\<close>\<close>
  "str_lower db s = (if list_all (\<lambda>c. c < 128) s then map ascii_lower s else uni_lower db s)"

fun strip_prefix :: "ustring \<Rightarrow> ustring \<Rightarrow> ustring option" where
  \<comment> \<open>a literal piece of a pattern: the rest of the text after it, if the text starts with it\<close>
  "strip_prefix [] s = Some s"
| "strip_prefix (p # ps) [] = None"
| "strip_prefix (p # ps) (c # cs) = (if p = c then strip_prefix ps cs else None)"

fun split_on :: "nat \<Rightarrow> ustring \<Rightarrow> ustring list" where
  \<comment> \<open>\<^verbatim>\<open>s.split(sep)\<close> for a one-character separator: always at least one piece\<close>
  "split_on sep [] = [[]]"
| "split_on sep (c # cs) =
     (if c = sep then [] # split_on sep cs
      else (case split_on sep cs of [] \<Rightarrow> [[c]] | l # ls \<Rightarrow> (c # l) # ls))"

fun join_nl :: "ustring list \<Rightarrow> ustring" where
  \<comment> \<open>\<^verbatim>\<open>'\n'.join(result)\<close>\<close>
  "join_nl [] = []"
| "join_nl [l] = l"
| "join_nl (l # ls) = l @ 10 # join_nl ls"

definition strip :: "ustring \<Rightarrow> ustring" where
  \<comment> \<open>\<^verbatim>\<open>s.strip()\<close>\<close>
  "strip s = rev (dropWhile is_space (rev (dropWhile is_space s)))"

text \<open>
  \<^verbatim>\<open>re.sub(pattern, repl, text)\<close> scans the text from the left; where the pattern matches
  it writes the replacement and goes on after the match, elsewhere it copies one
  character. A pattern is given by its matcher: on the text from the current position on,
  the replacement and the text after the match, or \<open>None\<close>. None of the patterns of this
  program uses an anchor or a look-behind (the line-anchored ones are treated by line,
  below), so the text before the position is not needed, and none matches the empty
  string; the branch for a match that consumes nothing copies one character, as Python does.
\<close>

type_synonym matcher = "ustring \<Rightarrow> (ustring \<times> ustring) option"

fun re_sub :: "matcher \<Rightarrow> ustring \<Rightarrow> ustring" where
  "re_sub m [] = []"
| "re_sub m (c # cs) =
     (case m (c # cs) of
        None \<Rightarrow> c # re_sub m cs
      | Some (r, rest) \<Rightarrow>
          if length rest < length (c # cs) then r @ re_sub m rest else r @ c # re_sub m cs)"

text \<open>
  A pattern \<^verbatim>\<open>^marker(.+)$\<close> under \<^verbatim>\<open>re.MULTILINE\<close>: \<^verbatim>\<open>^\<close> matches at the start of
  each line, the greedy \<^verbatim>\<open>.+\<close> takes the rest of the line (\<^verbatim>\<open>.\<close> is any character but
  the newline) and \<^verbatim>\<open>$\<close> holds at its end. So the substitution rewrites each line
  that is the marker followed by at least one character, and leaves the others.
  The same holds for \<^verbatim>\<open>re.sub\<close> with such a pattern on one line of \<^verbatim>\<open>split('\n')\<close>.
\<close>

definition sub_line :: "ustring \<Rightarrow> (ustring \<Rightarrow> ustring) \<Rightarrow> ustring \<Rightarrow> ustring" where
  "sub_line marker repl line =
     (case strip_prefix marker line of
        None \<Rightarrow> line
      | Some t \<Rightarrow> if t = [] then line else repl t)"

definition sub_multiline :: "ustring \<Rightarrow> (ustring \<Rightarrow> ustring) \<Rightarrow> ustring \<Rightarrow> ustring" where
  "sub_multiline marker repl html = join_nl (map (sub_line marker repl) (split_on 10 html))"

text \<open>
  \<^verbatim>\<open>.*?lit\<close> without \<^verbatim>\<open>re.DOTALL\<close>: the shortest run of characters other than the
  newline that is followed by the literal; the run and the text after the literal.
\<close>

fun lazy_until :: "ustring \<Rightarrow> ustring \<Rightarrow> (ustring \<times> ustring) option" where
  "lazy_until lit [] = (case strip_prefix lit [] of None \<Rightarrow> None | Some r \<Rightarrow> Some ([], r))"
| "lazy_until lit (c # cs) =
     (case strip_prefix lit (c # cs) of
        Some r \<Rightarrow> Some ([], r)
      | None \<Rightarrow>
          if c = 10 then None
          else (case lazy_until lit cs of None \<Rightarrow> None | Some (g, r) \<Rightarrow> Some (c # g, r)))"

text \<open>The same under \<^verbatim>\<open>re.DOTALL\<close>, where \<^verbatim>\<open>.\<close> is any character.\<close>

fun lazy_until_dotall :: "ustring \<Rightarrow> ustring \<Rightarrow> (ustring \<times> ustring) option" where
  "lazy_until_dotall lit [] = (case strip_prefix lit [] of None \<Rightarrow> None | Some r \<Rightarrow> Some ([], r))"
| "lazy_until_dotall lit (c # cs) =
     (case strip_prefix lit (c # cs) of
        Some r \<Rightarrow> Some ([], r)
      | None \<Rightarrow> (case lazy_until_dotall lit cs of None \<Rightarrow> None | Some (g, r) \<Rightarrow> Some (c # g, r)))"

section \<open>Headings and their identifiers (lines 57-67)\<close>

definition heading_pass :: "ustring \<Rightarrow> ustring" where
  \<open>heading_pass html =
     (let html = sub_multiline (U ''# '') (\<lambda>t. U ''<h1>'' @ t @ U ''</h1>'') html;
          html = sub_multiline (U ''## '')
                   (\<lambda>t. U ''<h2 id="'' @ t @ U ''">'' @ t @ U ''</h2>'') html;
          html = sub_multiline (U ''### '') (\<lambda>t. U ''<h3>'' @ t @ U ''</h3>'') html;
          html = sub_multiline (U ''#### '') (\<lambda>t. U ''<h4>'' @ t @ U ''</h4>'') html
      in html)\<close>

definition id_text :: "unidb \<Rightarrow> ustring \<Rightarrow> ustring" where
  \<comment> \<open>\<^verbatim>\<open>re.sub(r'[^\w\s-]', '', text.lower()).replace(' ', '-')\<close>\<close>
  "id_text db text =
     map (\<lambda>c. if c = 32 then 45 else c)
       (filter (\<lambda>c. is_word db c \<or> is_space c \<or> c = 45) (str_lower db text))"

definition make_id :: "unidb \<Rightarrow> ustring \<Rightarrow> ustring" where
  \<comment> \<open>the replacement, from group 1 of the match\<close>
  \<open>make_id db text = U ''<h2 id="'' @ id_text db text @ U ''">'' @ text @ U ''</h2>''\<close>

text \<open>
  \<^verbatim>\<open><h2 id="([^"]+)">([^<]+)</h2>\<close>: each negated class takes the longest run it can,
  and a shorter run would be followed by a character of the run, not by the quote or the
  angle bracket the pattern asks for next, so backtracking finds no other match.
\<close>

definition h2_match :: "unidb \<Rightarrow> matcher" where
  \<open>h2_match db s =
     (case strip_prefix (U ''<h2 id="'') s of
        None \<Rightarrow> None
      | Some s1 \<Rightarrow>
          let g1 = takeWhile (\<lambda>c. c \<noteq> 34) s1; s2 = dropWhile (\<lambda>c. c \<noteq> 34) s1 in
          if g1 = [] then None
          else (case strip_prefix (U ''">'') s2 of
                  None \<Rightarrow> None
                | Some s3 \<Rightarrow>
                    let g2 = takeWhile (\<lambda>c. c \<noteq> 60) s3; s4 = dropWhile (\<lambda>c. c \<noteq> 60) s3 in
                    if g2 = [] then None
                    else (case strip_prefix (U ''</h2>'') s4 of
                            None \<Rightarrow> None
                          | Some rest \<Rightarrow> Some (make_id db g1, rest))))\<close>

definition id_pass :: "unidb \<Rightarrow> ustring \<Rightarrow> ustring" where
  "id_pass db html = re_sub (h2_match db) html"

section \<open>Code blocks and inline markup (lines 70-82)\<close>

text \<open>
  \<^verbatim>\<open>```(\w+)?\n(.*?)```\<close> with \<^verbatim>\<open>re.DOTALL\<close>: the optional language tag is the longest
  run of word characters (a shorter one is followed by a word character, not by the
  newline), and the lazy group ends at the first triple backtick after the newline.
\<close>

definition code_match :: "unidb \<Rightarrow> matcher" where
  "code_match db s =
     (case strip_prefix (U ''```'') s of
        None \<Rightarrow> None
      | Some s1 \<Rightarrow>
          (case strip_prefix [10] (dropWhile (is_word db) s1) of
             None \<Rightarrow> None
           | Some s2 \<Rightarrow>
               (case lazy_until_dotall (U ''```'') s2 of
                  None \<Rightarrow> None
                | Some (body, rest) \<Rightarrow> Some (U ''<pre><code>'' @ body @ U ''</code></pre>'', rest))))"

definition code_pass :: "unidb \<Rightarrow> ustring \<Rightarrow> ustring" where
  "code_pass db html = re_sub (code_match db) html"

text \<open>\<^verbatim>\<open>`([^`]+)`\<close>\<close>

definition inline_code_match :: matcher where
  "inline_code_match s =
     (case strip_prefix (U ''`'') s of
        None \<Rightarrow> None
      | Some s1 \<Rightarrow>
          let g = takeWhile (\<lambda>c. c \<noteq> 96) s1 in
          if g = [] then None
          else (case strip_prefix (U ''`'') (dropWhile (\<lambda>c. c \<noteq> 96) s1) of
                  None \<Rightarrow> None
                | Some rest \<Rightarrow> Some (U ''<code>'' @ g @ U ''</code>'', rest)))"

text \<open>
  \<^verbatim>\<open>\*\*(.+?)\*\*\<close> and \<^verbatim>\<open>\*(.+?)\*\<close>: the lazy group is one character other than the
  newline, then the shortest run up to the closing marker.
\<close>

definition lazy_span_match :: "ustring \<Rightarrow> ustring \<Rightarrow> ustring \<Rightarrow> matcher" where
  "lazy_span_match mark open close s =
     (case strip_prefix mark s of
        None \<Rightarrow> None
      | Some [] \<Rightarrow> None
      | Some (c # cs) \<Rightarrow>
          if c = 10 then None
          else (case lazy_until mark cs of
                  None \<Rightarrow> None
                | Some (g, rest) \<Rightarrow> Some (open @ c # g @ close, rest)))"

definition bold_match :: matcher where
  "bold_match = lazy_span_match (U ''**'') (U ''<strong>'') (U ''</strong>'')"

definition italic_match :: matcher where
  "italic_match = lazy_span_match (U ''*'') (U ''<em>'') (U ''</em>'')"

text \<open>\<^verbatim>\<open>\[([^\]]+)\]\(([^)]+)\)\<close>\<close>

definition link_match :: matcher where
  \<open>link_match s =
     (case strip_prefix (U ''['') s of
        None \<Rightarrow> None
      | Some s1 \<Rightarrow>
          let g1 = takeWhile (\<lambda>c. c \<noteq> 93) s1 in
          if g1 = [] then None
          else (case strip_prefix (U '']('') (dropWhile (\<lambda>c. c \<noteq> 93) s1) of
                  None \<Rightarrow> None
                | Some s2 \<Rightarrow>
                    let g2 = takeWhile (\<lambda>c. c \<noteq> 41) s2 in
                    if g2 = [] then None
                    else (case strip_prefix (U '')'') (dropWhile (\<lambda>c. c \<noteq> 41) s2) of
                            None \<Rightarrow> None
                          | Some rest \<Rightarrow>
                              Some (U ''<a href="'' @ g2 @ U ''">'' @ g1 @ U ''</a>'', rest))))\<close>

definition inline_pass :: "ustring \<Rightarrow> ustring" where
  "inline_pass html =
     (let html = re_sub inline_code_match html;
          html = re_sub bold_match html;
          html = re_sub italic_match html;
          html = re_sub link_match html
      in html)"

section \<open>The list loop (lines 85-126)\<close>

text \<open>
  \<^verbatim>\<open>in_list\<close> holds \<^verbatim>\<open>False\<close>, \<^verbatim>\<open>True\<close> or \<^verbatim>\<open>'ol'\<close>.
\<close>

datatype in_list = NoList | InList | InOl

text \<open>
  What the loop appends to \<^verbatim>\<open>result\<close>, with the branch that appended it: the tag that
  opens a container (and the value \<^verbatim>\<open>in_list\<close> takes), the tag that closes it (by the
  value \<^verbatim>\<open>in_list\<close> has), a list item, or a line that is no list item. \<open>emit_text\<close>
  is the string appended.
\<close>

datatype emit = Open in_list ustring | Close in_list | Item ustring | Other ustring

definition close_tag :: "in_list \<Rightarrow> ustring" where
  \<comment> \<open>\<^verbatim>\<open>'</ol>' if in_list == 'ol' else '</ul>'\<close>\<close>
  "close_tag il = (if il = InOl then U ''</ol>'' else U ''</ul>'')"

fun emit_text :: "emit \<Rightarrow> ustring" where
  "emit_text (Open il tag) = tag"
| "emit_text (Close il) = close_tag il"
| "emit_text (Item s) = s"
| "emit_text (Other s) = s"

definition starts_with :: "ustring \<Rightarrow> ustring \<Rightarrow> bool" where
  \<comment> \<open>\<^verbatim>\<open>re.match\<close> of a literal prefix\<close>
  "starts_with p s = (strip_prefix p s \<noteq> None)"

definition unchecked_item :: "ustring \<Rightarrow> ustring" where
  \<open>unchecked_item t =
     U ''<li><input type="checkbox" id="item-'' @ t @ U ''"><label for="item-'' @ t
       @ U ''">'' @ t @ U ''</label></li>''\<close>

definition checked_item :: "ustring \<Rightarrow> ustring" where
  \<open>checked_item t =
     U ''<li><input type="checkbox" id="item-'' @ t @ U ''" checked><label for="item-'' @ t
       @ U ''">'' @ t @ U ''</label></li>''\<close>

definition li_item :: "ustring \<Rightarrow> ustring" where
  "li_item t = U ''<li>'' @ t @ U ''</li>''"

definition bullet_text :: "ustring \<Rightarrow> ustring option" where
  \<comment> \<open>group 1 of \<^verbatim>\<open>^- (.+)$\<close> on a line\<close>
  "bullet_text line =
     (case strip_prefix (U ''- '') line of
        None \<Rightarrow> None
      | Some t \<Rightarrow> if t = [] then None else Some t)"

definition ordered_text :: "unidb \<Rightarrow> ustring \<Rightarrow> ustring option" where
  \<comment> \<open>group 1 of \<^verbatim>\<open>^\d+\. (.+)$\<close> on a line: the digits are the longest run, since a
      shorter one is followed by a digit and not by the dot\<close>
  "ordered_text db line =
     (if takeWhile (is_digit db) line = [] then None
      else (case strip_prefix (U ''. '') (dropWhile (is_digit db) line) of
              None \<Rightarrow> None
            | Some t \<Rightarrow> if t = [] then None else Some t))"

definition open_if_closed :: "in_list \<Rightarrow> in_list \<Rightarrow> ustring \<Rightarrow> in_list \<times> emit list" where
  \<comment> \<open>\<^verbatim>\<open>if not in_list: result.append(tag); in_list = v\<close>\<close>
  "open_if_closed il v tag = (if il = NoList then (v, [Open v tag]) else (il, []))"

definition list_step :: "unidb \<Rightarrow> in_list \<Rightarrow> ustring \<Rightarrow> in_list \<times> emit list" where
  \<open>list_step db il line =
     (if starts_with (U ''- [ ]'') line then
        (let (il', out) = open_if_closed il InList (U ''<ul class="checklist">'')
         in (il', out @ [Item (sub_line (U ''- [ ] '') unchecked_item line)]))
      else if starts_with (U ''- [x]'') line then
        (let (il', out) = open_if_closed il InList (U ''<ul class="checklist">'')
         in (il', out @ [Item (sub_line (U ''- [x] '') checked_item line)]))
      else if bullet_text line \<noteq> None then
        (let (il', out) = open_if_closed il InList (U ''<ul>'')
         in (il', out @ [Item (sub_line (U ''- '') li_item line)]))
      else (case ordered_text db line of
              Some t \<Rightarrow>
                (let (il', out) = open_if_closed il InOl (U ''<ol>'')
                 in (il', out @ [Item (li_item t)]))
            | None \<Rightarrow>
                (NoList, (if il \<noteq> NoList then [Close il] else []) @ [Other line])))\<close>

fun list_loop :: "unidb \<Rightarrow> in_list \<Rightarrow> ustring list \<Rightarrow> emit list" where
  "list_loop db il [] = (if il \<noteq> NoList then [Close il] else [])"
| "list_loop db il (line # lines) =
     (let (il', out) = list_step db il line in out @ list_loop db il' lines)"

definition list_pass :: "unidb \<Rightarrow> ustring \<Rightarrow> ustring" where
  "list_pass db html = join_nl (map emit_text (list_loop db NoList (split_on 10 html)))"

section \<open>Paragraphs and their cleanup (lines 129-141)\<close>

text \<open>\<^verbatim>\<open>\n\n+\<close>, replaced by \<^verbatim>\<open>\n</p>\n<p>\n\<close>\<close>

definition para_match :: matcher where
  "para_match s =
     (case strip_prefix [10, 10] s of
        None \<Rightarrow> None
      | Some r \<Rightarrow> Some (U ''\<newline></p>\<newline><p>\<newline>'', dropWhile (\<lambda>c. c = 10) r))"

definition paragraph_pass :: "ustring \<Rightarrow> ustring" where
  "paragraph_pass html = U ''<p>'' @ re_sub para_match html @ U ''</p>''"

text \<open>
  In the cleanup patterns the greedy \<^verbatim>\<open>\s*\<close> is followed by \<^verbatim>\<open><\<close>, which is no
  whitespace, so only the longest run of whitespace can match.
  \<^verbatim>\<open><p>\s*</p>\<close>, replaced by the empty string:
\<close>

definition empty_para_match :: matcher where
  "empty_para_match s =
     (case strip_prefix (U ''<p>'') s of
        None \<Rightarrow> None
      | Some s1 \<Rightarrow>
          (case strip_prefix (U ''</p>'') (dropWhile is_space s1) of
             None \<Rightarrow> None
           | Some rest \<Rightarrow> Some ([], rest)))"

text \<open>\<^verbatim>\<open><p>(\s*TAG)\<close>, replaced by group 1, for \<^verbatim>\<open><pre\<close>, \<^verbatim>\<open><ul\<close>, \<^verbatim>\<open><ol\<close>\<close>

definition open_clean_match :: "ustring \<Rightarrow> matcher" where
  "open_clean_match tag s =
     (case strip_prefix (U ''<p>'') s of
        None \<Rightarrow> None
      | Some s1 \<Rightarrow>
          (case strip_prefix tag (dropWhile is_space s1) of
             None \<Rightarrow> None
           | Some rest \<Rightarrow> Some (takeWhile is_space s1 @ tag, rest)))"

text \<open>\<^verbatim>\<open>(TAG)\s*</p>\<close>, replaced by group 1, for \<^verbatim>\<open></pre>\<close>, \<^verbatim>\<open></ul>\<close>, \<^verbatim>\<open></ol>\<close>\<close>

definition close_clean_match :: "ustring \<Rightarrow> matcher" where
  "close_clean_match tag s =
     (case strip_prefix tag s of
        None \<Rightarrow> None
      | Some s1 \<Rightarrow>
          (case strip_prefix (U ''</p>'') (dropWhile is_space s1) of
             None \<Rightarrow> None
           | Some rest \<Rightarrow> Some (tag, rest)))"

definition h_level :: "nat \<Rightarrow> bool" where
  \<comment> \<open>\<^verbatim>\<open>[1-6]\<close>\<close>
  "h_level c = (49 \<le> c \<and> c \<le> 54)"

text \<open>\<^verbatim>\<open><p>(\s*<h[1-6])\<close>, replaced by group 1\<close>

definition open_clean_h_match :: matcher where
  "open_clean_h_match s =
     (case strip_prefix (U ''<p>'') s of
        None \<Rightarrow> None
      | Some s1 \<Rightarrow>
          (case strip_prefix (U ''<h'') (dropWhile is_space s1) of
             None \<Rightarrow> None
           | Some [] \<Rightarrow> None
           | Some (d # rest) \<Rightarrow>
               if h_level d then Some (takeWhile is_space s1 @ U ''<h'' @ [d], rest) else None))"

text \<open>\<^verbatim>\<open>(</h[1-6]>)\s*</p>\<close>, replaced by group 1\<close>

definition close_clean_h_match :: matcher where
  "close_clean_h_match s =
     (case strip_prefix (U ''</h'') s of
        None \<Rightarrow> None
      | Some [] \<Rightarrow> None
      | Some (d # s1) \<Rightarrow>
          if h_level d then
            (case strip_prefix (U ''>'') s1 of
               None \<Rightarrow> None
             | Some s2 \<Rightarrow>
                 (case strip_prefix (U ''</p>'') (dropWhile is_space s2) of
                    None \<Rightarrow> None
                  | Some rest \<Rightarrow> Some (U ''</h'' @ [d] @ U ''>'', rest)))
          else None)"

definition cleanup_pass :: "ustring \<Rightarrow> ustring" where
  "cleanup_pass html =
     (let html = re_sub empty_para_match html;
          html = re_sub open_clean_h_match html;
          html = re_sub close_clean_h_match html;
          html = re_sub (open_clean_match (U ''<pre'')) html;
          html = re_sub (close_clean_match (U ''</pre>'')) html;
          html = re_sub (open_clean_match (U ''<ul'')) html;
          html = re_sub (close_clean_match (U ''</ul>'')) html;
          html = re_sub (open_clean_match (U ''<ol'')) html;
          html = re_sub (close_clean_match (U ''</ol>'')) html
      in html)"

section \<open>Status badges (lines 144-147)\<close>

definition glyph_success :: ustring where "glyph_success = [9989]"
definition glyph_danger :: ustring where "glyph_danger = [10060]"
definition glyph_warning :: ustring where "glyph_warning = [9888, 65039]"
definition glyph_info :: ustring where "glyph_info = [128260]"

definition badge_match :: "ustring \<Rightarrow> ustring \<Rightarrow> matcher" where
  \<open>badge_match glyph cls s =
     (case strip_prefix glyph s of
        None \<Rightarrow> None
      | Some rest \<Rightarrow>
          Some (U ''<span class="badge badge-'' @ cls @ U ''">'' @ glyph @ U ''</span>'', rest))\<close>

definition badge_pass :: "ustring \<Rightarrow> ustring" where
  "badge_pass html =
     (let html = re_sub (badge_match glyph_success (U ''success'')) html;
          html = re_sub (badge_match glyph_danger (U ''danger'')) html;
          html = re_sub (badge_match glyph_warning (U ''warning'')) html;
          html = re_sub (badge_match glyph_info (U ''info'')) html
      in html)"

section \<open>Tables (lines 150-183)\<close>

datatype py_error = IndexError

definition nth_checked :: "'a list \<Rightarrow> nat \<Rightarrow> py_error + 'a" where
  \<comment> \<open>\<^verbatim>\<open>xs[i]\<close> for an index that is not negative\<close>
  "nth_checked xs i = (if i < length xs then Inr (xs ! i) else Inl IndexError)"

definition cells_of :: "ustring \<Rightarrow> ustring list" where
  \<comment> \<open>\<^verbatim>\<open>[c.strip() for c in line.split('|') if c.strip()]\<close>\<close>
  "cells_of line = filter (\<lambda>c. c \<noteq> []) (map strip (split_on 124 line))"

definition convert_table :: "ustring \<Rightarrow> py_error + ustring" where
  "convert_table text =
     (let lines = filter (\<lambda>l. l \<noteq> []) (map strip (split_on 10 text)) in
      if length lines < 2 then Inr text
      else (case nth_checked lines 0 of
              Inl e \<Rightarrow> Inl e
            | Inr line0 \<Rightarrow>
                (let headers = cells_of line0;
                     rows = filter (\<lambda>cells. cells \<noteq> []) (map cells_of (drop 2 lines))
                 in Inr (U ''<table>\<newline><thead>\<newline><tr>\<newline>''
                      @ concat (map (\<lambda>h. U ''<th>'' @ h @ U ''</th>\<newline>'') headers)
                      @ U ''</tr>\<newline></thead>\<newline><tbody>\<newline>''
                      @ concat (map (\<lambda>row. U ''<tr>\<newline>''
                            @ concat (map (\<lambda>cell. U ''<td>'' @ cell @ U ''</td>\<newline>'') row)
                            @ U ''</tr>\<newline>'') rows)
                      @ U ''</tbody>\<newline></table>''))))"

text \<open>
  One \<^verbatim>\<open>\|.+\|\n\<close>: a bar, at least one character, a bar and the end of the line.
  The greedy \<^verbatim>\<open>.+\<close> stays on the line, so the last bar is the last character of the
  line. The result is the text after the row.
\<close>

definition row_match :: "ustring \<Rightarrow> ustring option" where
  "row_match s =
     (case strip_prefix (U ''|'') s of
        None \<Rightarrow> None
      | Some s1 \<Rightarrow>
          (let inner = takeWhile (\<lambda>c. c \<noteq> 10) s1 in
           case strip_prefix [10] (dropWhile (\<lambda>c. c \<noteq> 10) s1) of
             None \<Rightarrow> None
           | Some rest \<Rightarrow> if 2 \<le> length inner \<and> last inner = 124 then Some rest else None))"

text \<open>
  \<^verbatim>\<open>(\|.+\|\n)+\<close> is greedy and nothing follows it in the pattern, so it takes rows as long
  as there is one: the text after the last row of the run.
\<close>

function rows_rest :: "ustring \<Rightarrow> ustring" where
  "rows_rest s = (case row_match s of None \<Rightarrow> s | Some rest \<Rightarrow> rows_rest rest)"
  by pat_completeness auto
termination
proof (relation "measure length")
  show "wf (measure length)"
    by simp
next
  fix s rest :: ustring
  assume m: "row_match s = Some rest"
  have sp: "strip_prefix p t = Some r \<Longrightarrow> length r + length p = length t" for p t r
    by (induction p t rule: strip_prefix.induct) (auto split: if_splits)
  from m obtain s1 where s1: "strip_prefix (U ''|'') s = Some s1"
    and r: "strip_prefix [10] (dropWhile (\<lambda>c. c \<noteq> 10) s1) = Some rest"
    by (auto simp: row_match_def Let_def split: option.splits if_splits)
  have "length (dropWhile (\<lambda>c. c \<noteq> 10) s1) \<le> length s1"
    by (rule length_dropWhile_le)
  with sp [OF s1] sp [OF r] have "length rest < length s"
    by simp
  then show "(rest, s) \<in> measure length"
    by simp
qed

declare rows_rest.simps [simp del]

text \<open>
  \<^verbatim>\<open>\n(\|.+\|\n)+\<close>: the matched text, which is \<^verbatim>\<open>m.group(0)\<close>, and the text after it.
\<close>

definition table_match :: "ustring \<Rightarrow> (ustring \<times> ustring) option" where
  "table_match s =
     (case strip_prefix [10] s of
        None \<Rightarrow> None
      | Some s1 \<Rightarrow>
          (case row_match s1 of
             None \<Rightarrow> None
           | Some r \<Rightarrow> (let rest = rows_rest s1 in Some (take (length s - length rest) s, rest))))"

text \<open>
  \<^verbatim>\<open>pattern.sub(f, text)\<close> with a function for the replacement: \<open>f\<close> gets the matched
  text, and an exception it raises ends the substitution.
\<close>

fun re_sub_call ::
  "(ustring \<Rightarrow> (ustring \<times> ustring) option) \<Rightarrow> (ustring \<Rightarrow> py_error + ustring) \<Rightarrow> ustring
     \<Rightarrow> py_error + ustring" where
  "re_sub_call m f [] = Inr []"
| "re_sub_call m f (c # cs) =
     (case m (c # cs) of
        None \<Rightarrow> (case re_sub_call m f cs of Inl e \<Rightarrow> Inl e | Inr t \<Rightarrow> Inr (c # t))
      | Some (g, rest) \<Rightarrow>
          (case f g of
             Inl e \<Rightarrow> Inl e
           | Inr r \<Rightarrow>
               if length rest < length (c # cs)
               then (case re_sub_call m f rest of Inl e \<Rightarrow> Inl e | Inr t \<Rightarrow> Inr (r @ t))
               else (case re_sub_call m f cs of Inl e \<Rightarrow> Inl e | Inr t \<Rightarrow> Inr (r @ c # t))))"

definition table_repl :: "ustring \<Rightarrow> py_error + ustring" where
  \<comment> \<open>\<^verbatim>\<open>lambda m: '\n' + convert_table(m.group(0)) + '\n'\<close>\<close>
  "table_repl g = (case convert_table g of Inl e \<Rightarrow> Inl e | Inr t \<Rightarrow> Inr (10 # t @ [10]))"

definition table_pass :: "ustring \<Rightarrow> py_error + ustring" where
  "table_pass html = re_sub_call table_match table_repl html"

section \<open>The conversion (lines 52-185)\<close>

definition convert_md_to_html :: "unidb \<Rightarrow> ustring \<Rightarrow> py_error + ustring" where
  "convert_md_to_html db md_content =
     (let html = md_content;
          html = heading_pass html;
          html = id_pass db html;
          html = code_pass db html;
          html = inline_pass html;
          html = list_pass db html;
          html = paragraph_pass html;
          html = cleanup_pass html;
          html = badge_pass html
      in table_pass html)"

section \<open>Predicates used in the statements\<close>





text \<open>The table of the example: header cells A and B, rows 1, 2 and 3, 4.\<close>

definition table_AB :: ustring where
  "table_AB = U ''<table>\<newline><thead>\<newline><tr>\<newline><th>A</th>\<newline><th>B</th>\<newline></tr>\<newline></thead>\<newline><tbody>\<newline><tr>\<newline><td>1</td>\<newline><td>2</td>\<newline></tr>\<newline><tr>\<newline><td>3</td>\<newline><td>4</td>\<newline></tr>\<newline></tbody>\<newline></table>''"





text \<open>\<open>contains p s\<close>: the text \<open>s\<close> has \<open>p\<close> as a substring.\<close>

fun contains :: "ustring \<Rightarrow> ustring \<Rightarrow> bool" where
  "contains p [] = (p = [])"
| "contains p (c # cs) = (case strip_prefix p (c # cs) of Some r \<Rightarrow> True | None \<Rightarrow> contains p cs)"

text \<open>
  Text without markup: none of the characters \<^verbatim>\<open>#\<close>, backtick, \<^verbatim>\<open>*\<close>, \<^verbatim>\<open>[\<close>,
  \<^verbatim>\<open><\<close>, \<^verbatim>\<open>|\<close> and no status glyph, no empty line, and no line that the list loop
  takes for a bullet or an ordered item. Plain text is text without markup that is not
  only whitespace.
\<close>

definition markup_chars :: "nat list" where
  "markup_chars = [35, 96, 42, 91, 60, 124, 9989, 10060, 9888, 128260]"

definition markup_free :: "unidb \<Rightarrow> ustring \<Rightarrow> bool" where
  "markup_free db md =
     (list_all (\<lambda>c. c \<notin> set markup_chars) md
      \<and> \<not> contains [10, 10] md
      \<and> list_all (\<lambda>l. bullet_text l = None \<and> ordered_text db l = None) (split_on 10 md))"

definition plain_text :: "unidb \<Rightarrow> ustring \<Rightarrow> bool" where
  "plain_text db md = (markup_free db md \<and> \<not> list_all is_space md)"



section \<open>Properties\<close>

subsection \<open>Evaluation on concrete inputs\<close>

lemmas char_defs = is_word_def is_space_def is_digit_def ascii_lower_def str_lower_def h_level_def

lemmas heading_defs = heading_pass_def sub_multiline_def sub_line_def id_pass_def h2_match_def
  make_id_def id_text_def

lemmas inline_defs = code_pass_def code_match_def inline_pass_def inline_code_match_def
  bold_match_def italic_match_def lazy_span_match_def link_match_def

lemmas list_defs = list_pass_def list_step_def starts_with_def bullet_text_def ordered_text_def
  open_if_closed_def close_tag_def li_item_def unchecked_item_def checked_item_def

lemmas para_defs = paragraph_pass_def para_match_def cleanup_pass_def empty_para_match_def
  open_clean_match_def close_clean_match_def open_clean_h_match_def close_clean_h_match_def

lemmas badge_defs = badge_pass_def badge_match_def glyph_success_def glyph_danger_def
  glyph_warning_def glyph_info_def

lemmas table_defs = table_pass_def table_match_def table_repl_def convert_table_def row_match_def
  nth_checked_def cells_of_def strip_def

lemmas eval_defs = convert_md_to_html_def char_defs heading_defs inline_defs list_defs para_defs
  badge_defs table_defs

subsection \<open>The result always exists\<close>

lemma strip_prefix_eq: "strip_prefix p s = Some r \<longleftrightarrow> s = p @ r"
  by (induction p s rule: strip_prefix.induct) auto

lemma strip_prefix_append [simp]: "strip_prefix p (p @ r) = Some r"
  by (simp add: strip_prefix_eq)

lemma convert_table_returns: "\<exists>t. convert_table text = Inr t"
  by (simp add: convert_table_def nth_checked_def Let_def)

lemma table_repl_returns: "\<exists>t. table_repl g = Inr t"
  using convert_table_returns [of g] by (auto simp: table_repl_def)

lemma re_sub_call_returns:
  assumes f: "\<And>g. \<exists>t. f g = Inr t"
  shows "\<exists>t. re_sub_call m f s = Inr t"
proof (induction s rule: length_induct)
  case (1 s)
  show ?case
  proof (cases s)
    case Nil
    then show ?thesis by simp
  next
    case (Cons c cs)
    from 1 Cons obtain t1 where t1: "re_sub_call m f cs = Inr t1"
      by auto
    show ?thesis
    proof (cases "m (c # cs)")
      case None
      with Cons t1 show ?thesis by simp
    next
      case (Some a)
      obtain g rest where a: "a = (g, rest)" by (cases a)
      obtain r where r: "f g = Inr r" using f by blast
      show ?thesis
      proof (cases "length rest < length (c # cs)")
        case True
        with 1 Cons obtain t2 where "re_sub_call m f rest = Inr t2"
          by auto
        with Cons Some a r True show ?thesis by simp
      next
        case False
        with Cons Some a r t1 show ?thesis by simp
      qed
    qed
  qed
qed

text \<open>
  Claim C8. For every input text the conversion returns an HTML string. The only
  operation of the conversion that can raise is the indexing \<^verbatim>\<open>lines[0]\<close> in
  \<^verbatim>\<open>convert_table\<close>, and it is guarded by the length test before it; every loop of
  the model is a terminating recursion.
\<close>

theorem convert_md_to_html_returns: "\<exists>h. convert_md_to_html db md = Inr h"
  unfolding convert_md_to_html_def Let_def table_pass_def
  by (rule re_sub_call_returns) (rule table_repl_returns)

theorem convert_md_to_html_returns_witness:
  "\<exists>h. convert_md_to_html ascii_db (U ''hello'') = Inr h"
  using convert_md_to_html_returns [of ascii_db "U ''hello''"] .

subsection \<open>Splitting into lines and joining them\<close>

lemma split_on_nonempty [simp]: "split_on sep s \<noteq> []"
  by (induction s) (auto split: list.splits)

lemma split_on_append:
  "split_on sep (a @ sep # b) = split_on sep a @ split_on sep b"
  by (induction a) (auto split: list.splits)

lemma split_on_free: "sep \<notin> set l \<Longrightarrow> split_on sep l = [l]"
  by (induction l) auto

lemma split_on_join:
  "ls \<noteq> [] \<Longrightarrow> list_all (\<lambda>l. 10 \<notin> set l) ls \<Longrightarrow> split_on 10 (join_nl ls) = ls"
proof (induction ls rule: join_nl.induct)
  case 1
  then show ?case by simp
next
  case (2 l)
  then show ?case by (simp add: split_on_free)
next
  case (3 l v va)
  then show ?case by (simp add: split_on_append split_on_free)
qed

lemma join_split: "join_nl (split_on 10 s) = s"
proof (induction s)
  case Nil
  then show ?case by simp
next
  case (Cons c s)
  then show ?case
    by (cases "split_on 10 s"; cases "tl (split_on 10 s)") auto
qed

lemma set_split_on: "l \<in> set (split_on sep s) \<Longrightarrow> set l \<subseteq> set s"
proof (induction s arbitrary: l)
  case Nil
  then show ?case by simp
next
  case (Cons c s)
  show ?case
  proof (cases "c = sep")
    case True
    with Cons show ?thesis by auto
  next
    case False
    obtain x xs where x: "split_on sep s = x # xs"
      by (cases "split_on sep s") auto
    with False Cons.prems have "l = c # x \<or> l \<in> set xs"
      by simp
    then show ?thesis
    proof
      assume "l = c # x"
      moreover have "set x \<subseteq> set s"
        by (rule Cons.IH) (simp add: x)
      ultimately show ?thesis by auto
    next
      assume "l \<in> set xs"
      then have "set l \<subseteq> set s"
        by (intro Cons.IH) (simp add: x)
      then show ?thesis by auto
    qed
  qed
qed


subsection \<open>The list loop\<close>




lemma is_digit_ascii [simp]:
  "\<not> is_digit db 10" "\<not> is_digit db 45" "\<not> is_digit db 46"
  by (simp_all add: is_digit_def)












subsection \<open>Tables\<close>

lemma rows_rest_step: "row_match s = Some r \<Longrightarrow> rows_rest s = rows_rest r"
  by (subst rows_rest.simps) simp

lemma rows_rest_stop: "row_match s = None \<Longrightarrow> rows_rest s = s"
  by (subst rows_rest.simps) simp

lemma row_match_line:
  assumes "10 \<notin> set x" "x \<noteq> []"
  shows "row_match (124 # x @ 124 # 10 # rest) = Some rest"
proof -
  have nx: "\<And>c. c \<in> set x \<Longrightarrow> c \<noteq> 10"
    using assms(1) by auto
  have tw: "takeWhile (\<lambda>c. c \<noteq> 10) (x @ 124 # 10 # rest) = x @ [124]"
    using nx by (simp add: takeWhile_append2)
  have dw: "dropWhile (\<lambda>c. c \<noteq> 10) (x @ 124 # 10 # rest) = 10 # rest"
    using nx by (simp add: dropWhile_append2)
  have len: "2 \<le> length (x @ [124::nat])"
    using assms(2) by (cases x) auto
  show ?thesis
    unfolding row_match_def using len by (simp add: tw dw Let_def del: length_append)
qed

lemma strip_bars: "strip (124 # x @ [124]) = 124 # x @ [124]"
  by (simp add: strip_def is_space_def)

lemma convert_table_AB:
  assumes "10 \<notin> set x"
  shows "convert_table (U ''\<newline>| A | B |\<newline>|'' @ x @ U ''|\<newline>| 1 | 2 |\<newline>| 3 | 4 |\<newline>'') = Inr table_AB"
proof -
  let ?ls = "[[], U ''| A | B |'', 124 # x @ [124], U ''| 1 | 2 |'', U ''| 3 | 4 |'', []]"
  have inp: "U ''\<newline>| A | B |\<newline>|'' @ x @ U ''|\<newline>| 1 | 2 |\<newline>| 3 | 4 |\<newline>'' = join_nl ?ls"
    by simp
  have sp: "split_on 10 (join_nl ?ls) = ?ls"
    by (rule split_on_join) (use assms in simp_all)
  have s0: "strip [] = []" "strip (U ''| A | B |'') = U ''| A | B |''"
    "strip (U ''| 1 | 2 |'') = U ''| 1 | 2 |''" "strip (U ''| 3 | 4 |'') = U ''| 3 | 4 |''"
    by (simp_all add: strip_def is_space_def)
  have ls: "filter (\<lambda>l. l \<noteq> []) (map strip ?ls)
      = [U ''| A | B |'', 124 # x @ [124], U ''| 1 | 2 |'', U ''| 3 | 4 |'']"
    by (simp add: s0 [simplified] strip_bars)
  have c0: "cells_of (U ''| A | B |'') = [U ''A'', U ''B'']"
    by (simp add: cells_of_def strip_def is_space_def)
  have c1: "cells_of (U ''| 1 | 2 |'') = [U ''1'', U ''2'']"
    by (simp add: cells_of_def strip_def is_space_def)
  have c2: "cells_of (U ''| 3 | 4 |'') = [U ''3'', U ''4'']"
    by (simp add: cells_of_def strip_def is_space_def)
  show ?thesis
    unfolding inp convert_table_def sp ls
    by (simp add: nth_checked_def c0 [simplified] c1 [simplified] c2 [simplified] table_AB_def)
qed

lemma rows_rest_AB:
  assumes "10 \<notin> set x" "x \<noteq> []"
  shows "rows_rest (U ''| A | B |\<newline>|'' @ x @ U ''|\<newline>| 1 | 2 |\<newline>| 3 | 4 |\<newline>'') = []"
proof -
  have r4: "rows_rest [] = []"
    by (simp add: rows_rest_stop row_match_def)
  have r3: "rows_rest (U ''| 3 | 4 |\<newline>'') = []"
    using row_match_line [of "U '' 3 | 4 ''" "[]"] by (simp add: rows_rest_step r4)
  have r2: "rows_rest (U ''| 1 | 2 |\<newline>| 3 | 4 |\<newline>'') = []"
    using row_match_line [of "U '' 1 | 2 ''" "U ''| 3 | 4 |\<newline>''"] r3 by (simp add: rows_rest_step)
  have r1: "rows_rest (124 # x @ 124 # 10 # U ''| 1 | 2 |\<newline>| 3 | 4 |\<newline>'') = []"
    using row_match_line [OF assms, of "U ''| 1 | 2 |\<newline>| 3 | 4 |\<newline>''"] r2 by (simp add: rows_rest_step)
  show ?thesis
    using row_match_line [of "U '' A | B ''" "124 # x @ 124 # 10 # U ''| 1 | 2 |\<newline>| 3 | 4 |\<newline>''"] r1
    by (simp add: rows_rest_step)
qed

lemma table_match_AB:
  assumes "10 \<notin> set x" "x \<noteq> []"
  shows "table_match (U ''\<newline>| A | B |\<newline>|'' @ x @ U ''|\<newline>| 1 | 2 |\<newline>| 3 | 4 |\<newline>'')
    = Some (U ''\<newline>| A | B |\<newline>|'' @ x @ U ''|\<newline>| 1 | 2 |\<newline>| 3 | 4 |\<newline>'', [])"
proof -
  have rm: "row_match (U ''| A | B |\<newline>|'' @ x @ U ''|\<newline>| 1 | 2 |\<newline>| 3 | 4 |\<newline>'')
     = Some (124 # x @ 124 # 10 # U ''| 1 | 2 |\<newline>| 3 | 4 |\<newline>'')"
    using row_match_line [of "U '' A | B ''" "124 # x @ 124 # 10 # U ''| 1 | 2 |\<newline>| 3 | 4 |\<newline>''"]
    by simp
  show ?thesis
    using rm rows_rest_AB [OF assms] by (simp add: table_match_def)
qed

text \<open>
  A table block that follows a line break: the header cells A and B, a second line, and
  the rows 1, 2 and 3, 4 become a table with two header cells and two body rows of two
  cells each. The second line of the run gives no row, whatever it holds between its
  bars: it is dropped without a look at its content.
\<close>

lemma table_pass_after_newline:
  assumes "10 \<notin> set x" "x \<noteq> []"
  shows "table_pass (U ''\<newline>| A | B |\<newline>|'' @ x @ U ''|\<newline>| 1 | 2 |\<newline>| 3 | 4 |\<newline>'') =
    Inr (U ''\<newline><table>\<newline><thead>\<newline><tr>\<newline><th>A</th>\<newline><th>B</th>\<newline></tr>\<newline></thead>\<newline><tbody>\<newline><tr>\<newline><td>1</td>\<newline><td>2</td>\<newline></tr>\<newline><tr>\<newline><td>3</td>\<newline><td>4</td>\<newline></tr>\<newline></tbody>\<newline></table>\<newline>'')"
proof -
  let ?t = "U ''\<newline>| A | B |\<newline>|'' @ x @ U ''|\<newline>| 1 | 2 |\<newline>| 3 | 4 |\<newline>''"
  obtain c cs where cs: "?t = c # cs"
    by simp
  have m: "table_match (c # cs) = Some (c # cs, [])"
    using table_match_AB [OF assms] by (simp only: cs)
  have r: "table_repl (c # cs) = Inr (10 # table_AB @ [10])"
    using convert_table_AB [OF assms(1)] by (simp only: cs table_repl_def sum.case)
  have "re_sub_call table_match table_repl (c # cs) = Inr (10 # table_AB @ [10])"
    by (simp add: m r)
  then show ?thesis
    unfolding table_pass_def cs by (simp add: table_AB_def)
qed

text \<open>
  Claim C3. A well-formed table block with the header cells A and B, the separator line
  and the rows 1, 2 and 3, 4 should give a table with two header cells and two body rows.
  Where the block is the start of the document, the conversion does not: the pattern
  asks for a newline before the first row, so the run starts at the separator line,
  whose dashes become the header cells; the row 1, 2 is dropped in its place, one body
  row is left, and the header line stays in the text as it was.
\<close>

theorem table_at_document_start:
  "convert_md_to_html ascii_db (U ''| A | B |\<newline>|---|---|\<newline>| 1 | 2 |\<newline>| 3 | 4 |\<newline>'')
     = Inr (U ''<p>| A | B |\<newline><table>\<newline><thead>\<newline><tr>\<newline><th>---</th>\<newline><th>---</th>\<newline></tr>\<newline></thead>\<newline><tbody>\<newline><tr>\<newline><td>3</td>\<newline><td>4</td>\<newline></tr>\<newline></tbody>\<newline></table>\<newline></p>'')"
  by (simp add: eval_defs rows_rest.simps)

subsection \<open>Headings\<close>

lemma re_sub_skip:
  "(\<And>c r. c \<in> set a \<Longrightarrow> m (c # r) = None) \<Longrightarrow> re_sub m (a @ b) = a @ re_sub m b"
  by (induction a) auto

lemma re_sub_match:
  "m (c # cs) = Some (r, rest) \<Longrightarrow> length rest < length (c # cs) \<Longrightarrow>
   re_sub m (c # cs) = r @ re_sub m rest"
  by simp















subsection \<open>Code blocks\<close>

lemma contains_iff: "contains p s \<longleftrightarrow> (\<exists>a b. s = a @ p @ b)"
proof (induction s)
  case Nil
  then show ?case by auto
next
  case (Cons c cs)
  show ?case
  proof (cases "strip_prefix p (c # cs)")
    case (Some r)
    then have "c # cs = [] @ p @ r"
      by (simp add: strip_prefix_eq)
    then have "\<exists>a b. c # cs = a @ p @ b"
      by blast
    with Some show ?thesis by simp
  next
    case None
    have "(\<exists>a b. c # cs = a @ p @ b) \<longleftrightarrow> (\<exists>a b. cs = a @ p @ b)"
    proof
      assume "\<exists>a b. c # cs = a @ p @ b"
      then obtain a b where ab: "c # cs = a @ p @ b"
        by blast
      show "\<exists>a b. cs = a @ p @ b"
      proof (cases a)
        case Nil
        with ab have "strip_prefix p (c # cs) = Some b"
          by (simp add: strip_prefix_eq)
        with None show ?thesis by simp
      next
        case (Cons x a')
        with ab have "cs = a' @ p @ b" by simp
        then show ?thesis by blast
      qed
    next
      assume "\<exists>a b. cs = a @ p @ b"
      then obtain a b where "cs = a @ p @ b" by blast
      then have "c # cs = (c # a) @ p @ b" by simp
      then show "\<exists>a b. c # cs = a @ p @ b" by blast
    qed
    with None Cons show ?thesis by simp
  qed
qed



lemma re_sub_unchanged:
  "(\<And>a b. s = a @ b \<Longrightarrow> b \<noteq> [] \<Longrightarrow> m b = None) \<Longrightarrow> re_sub m s = s"
proof (induction s)
  case Nil
  then show ?case by simp
next
  case (Cons c cs)
  have "m (c # cs) = None"
    using Cons.prems [of "[]" "c # cs"] by simp
  moreover have "re_sub m cs = cs"
  proof (rule Cons.IH)
    fix a b
    assume "cs = a @ b" "b \<noteq> []"
    then show "m b = None"
      using Cons.prems [of "c # a" b] by simp
  qed
  ultimately show ?case by simp
qed



lemma strip_prefix_shorter:
  assumes "strip_prefix lit (x @ butlast lit) = None" "lit \<noteq> []" "x \<noteq> []"
  shows "strip_prefix lit (x @ lit @ rest) = None"
proof (rule ccontr)
  define y where "y = x @ butlast lit"
  assume "strip_prefix lit (x @ lit @ rest) \<noteq> None"
  then obtain r where "x @ lit @ rest = lit @ r"
    by (auto simp: strip_prefix_eq)
  moreover have "x @ lit @ rest = y @ last lit # rest"
    using assms(2) by (simp add: y_def)
  ultimately have eq: "y @ last lit # rest = lit @ r"
    by simp
  have le: "length lit \<le> length y"
    using assms(2,3) by (cases x) (auto simp: y_def)
  from arg_cong [OF eq, of "take (length lit)"] le
  have "take (length lit) y = lit"
    by simp
  with append_take_drop_id [of "length lit" y]
  have "y = lit @ drop (length lit) y"
    by simp
  then have "strip_prefix lit y = Some (drop (length lit) y)"
    by (simp only: strip_prefix_eq)
  with assms(1) show False
    by (simp add: y_def)
qed

lemma lazy_until_dotall_first:
  assumes "lit \<noteq> []"
  shows "\<not> contains lit (body @ butlast lit) \<Longrightarrow>
    lazy_until_dotall lit (body @ lit @ rest) = Some (body, rest)"
proof (induction body)
  case Nil
  from assms obtain c l where "lit = c # l"
    by (cases lit) auto
  then have "lazy_until_dotall lit (lit @ rest) = Some ([], rest)"
    using strip_prefix_append [of lit rest] by simp
  then show ?case by simp
next
  case (Cons c b)
  from Cons.prems have n: "strip_prefix lit ((c # b) @ butlast lit) = None"
    and r: "\<not> contains lit (b @ butlast lit)"
    by (auto split: option.splits)
  have "strip_prefix lit ((c # b) @ lit @ rest) = None"
    by (rule strip_prefix_shorter [OF n assms]) simp
  with Cons.IH [OF r] show ?case
    by simp
qed

lemma is_word_newline [simp]: "\<not> is_word db 10"
  by (simp add: is_word_def)

lemma code_match_fence:
  assumes "list_all (is_word db) lang" "\<not> contains (U ''```'') (body @ U ''``'')"
  shows "code_match db (U ''```'' @ lang @ 10 # body @ U ''```'' @ rest)
    = Some (U ''<pre><code>'' @ body @ U ''</code></pre>'', rest)"
proof -
  have w: "\<And>c. c \<in> set lang \<Longrightarrow> is_word db c"
    using assms(1) by (simp add: list_all_iff)
  have dw: "dropWhile (is_word db) (lang @ 10 # body @ U ''```'' @ rest) = 10 # body @ U ''```'' @ rest"
    using w by (simp add: dropWhile_append2)
  have "\<not> contains (U ''```'') (body @ butlast (U ''```''))"
    using assms(2) by simp
  then have lz: "lazy_until_dotall (U ''```'') (body @ U ''```'' @ rest) = Some (body, rest)"
    by (rule lazy_until_dotall_first [rotated]) simp
  show ?thesis
    using lz by (simp add: code_match_def dw [simplified])
qed

lemma code_match_first: "c \<noteq> 96 \<Longrightarrow> code_match db (c # r) = None"
  by (simp add: code_match_def)

text \<open>
  The code-block pass replaces a well-formed fence (three backticks, an optional language
  tag, a newline, the interior, and the next three backticks) by \<^verbatim>\<open><pre><code>\<close>,
  the interior byte for byte as the pass receives it, and \<^verbatim>\<open></code></pre>\<close>.
\<close>

lemma code_pass_fence:
  assumes "96 \<notin> set pre" "list_all (is_word db) lang"
    and "\<not> contains (U ''```'') (body @ U ''``'')"
  shows "code_pass db (pre @ U ''```'' @ lang @ 10 # body @ U ''```'' @ rest)
    = pre @ U ''<pre><code>'' @ body @ U ''</code></pre>'' @ code_pass db rest"
proof -
  have "re_sub (code_match db) (96 # U ''``'' @ lang @ 10 # body @ U ''```'' @ rest)
     = (U ''<pre><code>'' @ body @ U ''</code></pre>'') @ re_sub (code_match db) rest"
    by (rule re_sub_match) (use code_match_fence [OF assms(2,3), of rest] in simp_all)
  moreover have "re_sub (code_match db) (pre @ 96 # U ''``'' @ lang @ 10 # body @ U ''```'' @ rest)
     = pre @ re_sub (code_match db) (96 # U ''``'' @ lang @ 10 # body @ U ''```'' @ rest)"
  proof (rule re_sub_skip)
    fix c r
    assume "c \<in> set pre"
    with assms(1) have "c \<noteq> 96"
      by auto
    then show "code_match db (c # r) = None"
      by (rule code_match_first)
  qed
  ultimately show ?thesis
    by (simp add: code_pass_def)
qed

lemma code_pass_fence_example:
  "code_pass ascii_db (U ''a\<newline>```py\<newline>x = 1\<newline>```\<newline>after'')
     = U ''a\<newline><pre><code>x = 1\<newline></code></pre>\<newline>after''"
  using code_pass_fence [of "U ''a\<newline>''" ascii_db "U ''py''" "U ''x = 1\<newline>''" "U ''\<newline>after''"]
  by (simp add: is_word_def code_pass_def code_match_def)

subsection \<open>Plain text\<close>

lemma sub_line_absent: "c \<notin> set l \<Longrightarrow> sub_line (c # m) repl l = l"
  by (cases l) (auto simp: sub_line_def)

lemma sub_multiline_absent:
  assumes "c \<notin> set s"
  shows "sub_multiline (c # m) repl s = s"
proof -
  have "map (sub_line (c # m) repl) (split_on 10 s) = split_on 10 s"
  proof (rule map_idI)
    fix l
    assume "l \<in> set (split_on 10 s)"
    from set_split_on [OF this] assms have "c \<notin> set l"
      by auto
    then show "sub_line (c # m) repl l = l"
      by (rule sub_line_absent)
  qed
  then show ?thesis
    by (simp add: sub_multiline_def join_split)
qed

lemma heading_pass_plain: "35 \<notin> set s \<Longrightarrow> heading_pass s = s"
  using sub_multiline_absent [of 35 s]
  by (simp add: heading_pass_def)

lemma re_sub_absent:
  assumes "\<And>c r. c \<noteq> x \<Longrightarrow> m (c # r) = None" "x \<notin> set s"
  shows "re_sub m s = s"
proof -
  have "re_sub m (s @ []) = s @ re_sub m []"
  proof (rule re_sub_skip)
    fix c r
    assume "c \<in> set s"
    with assms(2) have "c \<noteq> x" by auto
    then show "m (c # r) = None" by (rule assms(1))
  qed
  then show ?thesis by simp
qed

lemma id_pass_plain: "60 \<notin> set s \<Longrightarrow> id_pass db s = s"
  unfolding id_pass_def by (rule re_sub_absent [of 60]) (simp_all add: h2_match_def)

lemma code_pass_plain: "96 \<notin> set s \<Longrightarrow> code_pass db s = s"
  unfolding code_pass_def by (rule re_sub_absent [of 96]) (simp_all add: code_match_def)

lemma inline_pass_plain:
  assumes "96 \<notin> set s" "42 \<notin> set s" "91 \<notin> set s"
  shows "inline_pass s = s"
proof -
  have a: "re_sub inline_code_match s = s"
    by (rule re_sub_absent [of 96]) (simp_all add: inline_code_match_def assms)
  have b: "re_sub bold_match s = s"
    by (rule re_sub_absent [of 42]) (simp_all add: bold_match_def lazy_span_match_def assms)
  have c: "re_sub italic_match s = s"
    by (rule re_sub_absent [of 42]) (simp_all add: italic_match_def lazy_span_match_def assms)
  have d: "re_sub link_match s = s"
    by (rule re_sub_absent [of 91]) (simp_all add: link_match_def assms)
  show ?thesis
    by (simp add: inline_pass_def a b c d)
qed

lemma list_step_other:
  assumes "91 \<notin> set l" "bullet_text l = None" "ordered_text db l = None"
  shows "list_step db NoList l = (NoList, [Other l])"
proof -
  have "\<not> starts_with (U ''- [ ]'') l" "\<not> starts_with (U ''- [x]'') l"
    using assms(1) by (auto simp: starts_with_def strip_prefix_eq)
  with assms(2,3) show ?thesis
    by (simp add: list_step_def)
qed

lemma list_loop_other:
  "list_all (\<lambda>l. 91 \<notin> set l \<and> bullet_text l = None \<and> ordered_text db l = None) ls \<Longrightarrow>
   list_loop db NoList ls = map Other ls"
  by (induction ls) (simp_all add: list_step_other)

lemma list_pass_plain:
  assumes "91 \<notin> set s"
    and "list_all (\<lambda>l. bullet_text l = None \<and> ordered_text db l = None) (split_on 10 s)"
  shows "list_pass db s = s"
proof -
  have "list_all (\<lambda>l. 91 \<notin> set l \<and> bullet_text l = None \<and> ordered_text db l = None) (split_on 10 s)"
    unfolding list_all_iff
  proof
    fix l
    assume l: "l \<in> set (split_on 10 s)"
    from set_split_on [OF l] assms(1) have "91 \<notin> set l"
      by auto
    with assms(2) l show "91 \<notin> set l \<and> bullet_text l = None \<and> ordered_text db l = None"
      by (simp add: list_all_iff)
  qed
  then have "list_loop db NoList (split_on 10 s) = map Other (split_on 10 s)"
    by (rule list_loop_other)
  then show ?thesis
    by (simp add: list_pass_def comp_def join_split)
qed

lemma paragraph_pass_plain:
  assumes "\<not> contains [10, 10] s"
  shows "paragraph_pass s = U ''<p>'' @ s @ U ''</p>''"
proof -
  have "re_sub para_match s = s"
  proof (rule re_sub_unchanged)
    fix a b
    assume s: "s = a @ b"
    show "para_match b = None"
    proof (rule ccontr)
      assume "para_match b \<noteq> None"
      then obtain r where "b = [10, 10] @ r"
        by (auto simp: para_match_def strip_prefix_eq split: option.splits)
      with s have "s = a @ [10, 10] @ r"
        by simp
      then have "contains [10, 10] s"
        unfolding contains_iff by blast
      with assms show False by simp
    qed
  qed
  then show ?thesis
    by (simp add: paragraph_pass_def)
qed

lemma dropWhile_space_plain:
  assumes "\<not> list_all is_space md" "60 \<notin> set md"
  shows "\<exists>c r. dropWhile is_space (md @ x) = c # r \<and> c \<noteq> 60"
proof -
  from assms(1) obtain y where y: "y \<in> set md" "\<not> is_space y"
    by (auto simp: list_all_iff)
  then have d: "dropWhile is_space (md @ x) = dropWhile is_space md @ x"
    by (simp add: dropWhile_append1)
  from y have ne: "dropWhile is_space md \<noteq> []"
    by (auto simp: dropWhile_eq_Nil_conv)
  then obtain c r where cr: "dropWhile is_space md = c # r"
    by (cases "dropWhile is_space md") auto
  have "c \<in> set md"
    using set_dropWhileD [of c is_space md] cr by simp
  with assms(2) have "c \<noteq> 60"
    by auto
  with d cr show ?thesis
    by simp
qed

lemma re_sub_wrapped:
  assumes first: "m (U ''<p>'' @ md @ U ''</p>'') = None"
    and other: "\<And>c r. c \<noteq> 60 \<Longrightarrow> m (c # r) = None"
    and last: "re_sub m (U ''</p>'') = U ''</p>''"
    and md: "60 \<notin> set md"
  shows "re_sub m (U ''<p>'' @ md @ U ''</p>'') = U ''<p>'' @ md @ U ''</p>''"
proof -
  have "re_sub m ((U ''p>'' @ md) @ U ''</p>'') = (U ''p>'' @ md) @ re_sub m (U ''</p>'')"
  proof (rule re_sub_skip)
    fix c r
    assume "c \<in> set (U ''p>'' @ md)"
    with md have "c \<noteq> 60"
      by auto
    then show "m (c # r) = None"
      by (rule other)
  qed
  with first last show ?thesis
    by simp
qed

lemma cleanup_pass_plain:
  assumes "\<not> list_all is_space md" "60 \<notin> set md"
  shows "cleanup_pass (U ''<p>'' @ md @ U ''</p>'') = U ''<p>'' @ md @ U ''</p>''"
proof -
  from dropWhile_space_plain [OF assms, of "U ''</p>''"]
  obtain c r where d: "dropWhile is_space (md @ U ''</p>'') = c # r" and c: "c \<noteq> 60"
    by blast
  have d': "dropWhile is_space (md @ [60, 47, 112, 62]) = c # r"
    using d by simp
  have 1: "re_sub empty_para_match (U ''<p>'' @ md @ U ''</p>'') = U ''<p>'' @ md @ U ''</p>''"
    by (rule re_sub_wrapped [OF _ _ _ assms(2)]) (simp_all add: empty_para_match_def d' c)
  have 2: "re_sub open_clean_h_match (U ''<p>'' @ md @ U ''</p>'') = U ''<p>'' @ md @ U ''</p>''"
    by (rule re_sub_wrapped [OF _ _ _ assms(2)]) (simp_all add: open_clean_h_match_def d' c)
  have 3: "re_sub close_clean_h_match (U ''<p>'' @ md @ U ''</p>'') = U ''<p>'' @ md @ U ''</p>''"
    by (rule re_sub_wrapped [OF _ _ _ assms(2)]) (simp_all add: close_clean_h_match_def h_level_def)
  have 4: "re_sub (open_clean_match (U ''<pre'')) (U ''<p>'' @ md @ U ''</p>'') = U ''<p>'' @ md @ U ''</p>''"
    by (rule re_sub_wrapped [OF _ _ _ assms(2)]) (simp_all add: open_clean_match_def d' c)
  have 5: "re_sub (close_clean_match (U ''</pre>'')) (U ''<p>'' @ md @ U ''</p>'') = U ''<p>'' @ md @ U ''</p>''"
    by (rule re_sub_wrapped [OF _ _ _ assms(2)]) (simp_all add: close_clean_match_def)
  have 6: "re_sub (open_clean_match (U ''<ul'')) (U ''<p>'' @ md @ U ''</p>'') = U ''<p>'' @ md @ U ''</p>''"
    by (rule re_sub_wrapped [OF _ _ _ assms(2)]) (simp_all add: open_clean_match_def d' c)
  have 7: "re_sub (close_clean_match (U ''</ul>'')) (U ''<p>'' @ md @ U ''</p>'') = U ''<p>'' @ md @ U ''</p>''"
    by (rule re_sub_wrapped [OF _ _ _ assms(2)]) (simp_all add: close_clean_match_def)
  have 8: "re_sub (open_clean_match (U ''<ol'')) (U ''<p>'' @ md @ U ''</p>'') = U ''<p>'' @ md @ U ''</p>''"
    by (rule re_sub_wrapped [OF _ _ _ assms(2)]) (simp_all add: open_clean_match_def d' c)
  have 9: "re_sub (close_clean_match (U ''</ol>'')) (U ''<p>'' @ md @ U ''</p>'') = U ''<p>'' @ md @ U ''</p>''"
    by (rule re_sub_wrapped [OF _ _ _ assms(2)]) (simp_all add: close_clean_match_def)
  show ?thesis
    unfolding cleanup_pass_def Let_def
    by (simp only: 1 2 3 4 5 6 7 8 9)
qed

lemma badge_pass_plain:
  assumes "9989 \<notin> set s" "10060 \<notin> set s" "9888 \<notin> set s" "128260 \<notin> set s"
  shows "badge_pass s = s"
proof -
  have a: "re_sub (badge_match glyph_success (U ''success'')) s = s"
    by (rule re_sub_absent [of 9989]) (simp_all add: badge_match_def glyph_success_def assms)
  have b: "re_sub (badge_match glyph_danger (U ''danger'')) s = s"
    by (rule re_sub_absent [of 10060]) (simp_all add: badge_match_def glyph_danger_def assms)
  have c: "re_sub (badge_match glyph_warning (U ''warning'')) s = s"
    by (rule re_sub_absent [of 9888]) (simp_all add: badge_match_def glyph_warning_def assms)
  have d: "re_sub (badge_match glyph_info (U ''info'')) s = s"
    by (rule re_sub_absent [of 128260]) (simp_all add: badge_match_def glyph_info_def assms)
  show ?thesis
    unfolding badge_pass_def Let_def by (simp only: a b c d)
qed

lemma re_sub_call_unchanged:
  "(\<And>a b. s = a @ b \<Longrightarrow> b \<noteq> [] \<Longrightarrow> m b = None) \<Longrightarrow> re_sub_call m f s = Inr s"
proof (induction s)
  case Nil
  then show ?case by simp
next
  case (Cons c cs)
  have "m (c # cs) = None"
    using Cons.prems [of "[]" "c # cs"] by simp
  moreover have "re_sub_call m f cs = Inr cs"
  proof (rule Cons.IH)
    fix a b
    assume "cs = a @ b" "b \<noteq> []"
    then show "m b = None"
      using Cons.prems [of "c # a" b] by simp
  qed
  ultimately show ?case by simp
qed

lemma table_match_bar: "table_match s \<noteq> None \<Longrightarrow> 124 \<in> set s"
  by (auto simp: table_match_def row_match_def strip_prefix_eq split: option.splits)

lemma table_pass_plain:
  assumes "124 \<notin> set s"
  shows "table_pass s = Inr s"
  unfolding table_pass_def
proof (rule re_sub_call_unchanged)
  fix a b
  assume "s = a @ b"
  with assms have "124 \<notin> set b"
    by simp
  with table_match_bar [of b] show "table_match b = None"
    by blast
qed

text \<open>
  Claim C7, as amended. For every input that is plain text (no markup character of the
  block or inline passes, no empty line, no list item, not only whitespace) the output is
  exactly one paragraph element wrapping one copy of the input, as it is: the input is
  not trimmed.
\<close>

theorem plain_text_paragraph:
  assumes "plain_text db md"
  shows "convert_md_to_html db md = Inr (U ''<p>'' @ md @ U ''</p>'')"
proof -
  from assms have ch: "\<And>c. c \<in> set md \<Longrightarrow> c \<notin> set markup_chars"
    and nn: "\<not> contains [10, 10] md"
    and li: "list_all (\<lambda>l. bullet_text l = None \<and> ordered_text db l = None) (split_on 10 md)"
    and ns: "\<not> list_all is_space md"
    by (simp_all add: plain_text_def markup_free_def list_all_iff)
  have c: "35 \<notin> set md" "96 \<notin> set md" "42 \<notin> set md" "91 \<notin> set md" "60 \<notin> set md"
    "124 \<notin> set md" "9989 \<notin> set md" "10060 \<notin> set md" "9888 \<notin> set md" "128260 \<notin> set md"
    using ch by (auto simp: markup_chars_def)
  have 1: "heading_pass md = md"
    by (rule heading_pass_plain) (rule c)
  have 2: "id_pass db md = md"
    by (rule id_pass_plain) (rule c)
  have 3: "code_pass db md = md"
    by (rule code_pass_plain) (rule c)
  have 4: "inline_pass md = md"
    by (rule inline_pass_plain) (rule c)+
  have 5: "list_pass db md = md"
    by (rule list_pass_plain) (rule c li)+
  have 6: "paragraph_pass md = U ''<p>'' @ md @ U ''</p>''"
    by (rule paragraph_pass_plain) (rule nn)
  have 7: "cleanup_pass (U ''<p>'' @ md @ U ''</p>'') = U ''<p>'' @ md @ U ''</p>''"
    by (rule cleanup_pass_plain) (rule ns c)+
  have 8: "badge_pass (U ''<p>'' @ md @ U ''</p>'') = U ''<p>'' @ md @ U ''</p>''"
    by (rule badge_pass_plain) (use c in simp_all)
  have 9: "table_pass (U ''<p>'' @ md @ U ''</p>'') = Inr (U ''<p>'' @ md @ U ''</p>'')"
    by (rule table_pass_plain) (use c in simp)
  show ?thesis
    unfolding convert_md_to_html_def Let_def
    by (simp only: 1 2 3 4 5 6 7 8 9)
qed

theorem plain_text_paragraph_witness:
  "convert_md_to_html ascii_db (U ''Hello world, 2 + 2 = 4.\<newline> second line '')
     = Inr (U ''<p>Hello world, 2 + 2 = 4.\<newline> second line </p>'')"
  using plain_text_paragraph [of ascii_db "U ''Hello world, 2 + 2 = 4.\<newline> second line ''"]
  by (simp add: plain_text_def markup_free_def markup_chars_def bullet_text_def ordered_text_def
        is_digit_def is_space_def)

text \<open>
  The claim as stated fails on an input with a leading and a trailing space: the
  paragraph holds the input with its spaces, not the trimmed text.
\<close>

theorem plain_text_paragraph_counterexample:
  "convert_md_to_html ascii_db (U '' hello '') = Inr (U ''<p> hello </p>'')
   \<and> strip (U '' hello '') = U ''hello''"
  by (simp add: eval_defs)

text \<open>
  Claim C9. The conversion is deterministic: it reads its argument and nothing else (no
  global that changes, no clock, no random source), so it is a function of the input, and
  two runs on the same input give the same output.
\<close>

theorem convert_deterministic:
  "md1 = md2 \<Longrightarrow> convert_md_to_html db md1 = convert_md_to_html db md2"
  by simp

theorem convert_deterministic_witness:
  "convert_md_to_html ascii_db (U ''# Title'') = convert_md_to_html ascii_db (U ''# Title'')"
  by (rule convert_deterministic) simp

subsection \<open>Numerals of ordered items in the whole conversion\<close>




lemma set_join_nl_mem: "l \<in> set ls \<Longrightarrow> set l \<subseteq> set (join_nl ls)"
  by (induction ls rule: join_nl.induct) auto













subsection \<open>Fences in the whole conversion\<close>









lemma is_word_markup [simp]:
  "\<not> is_word db 35" "\<not> is_word db 60" "\<not> is_word db 96" "\<not> is_word db 42" "\<not> is_word db 91"
  "\<not> is_word db 124"
  by (simp_all add: is_word_def)











end
